theory Spec2Isabelle
  imports
    Complex_Main
    "HOL-Library.Char_ord"
    "HOL-Library.List_Lexorder"
    "HOL-Library.Product_Lexorder"
begin

section \<open>Focal-length statistics: a model of \<^verbatim>\<open>analyze_focal_lengths.py\<close>\<close>

text \<open>
  The script scans a folder for photos, asks \<^verbatim>\<open>exiftool\<close> for five tags per file,
  turns them into a 35 mm equivalent focal length and a camera label, counts both in two
  \<^verbatim>\<open>collections.Counter\<close> objects and finally writes two CSV files and a chart.

  Conventions of the model.
  \<^item> Text is ASCII: \<^verbatim>\<open>str.upper\<close>, \<^verbatim>\<open>str.lower\<close>, \<^verbatim>\<open>str.strip\<close> and
    \<^verbatim>\<open>str.splitlines\<close> are modelled on the ASCII range, and \<^verbatim>\<open>\d\<close> matches the ten
    ASCII digits.
  \<^item> A Python \<^verbatim>\<open>float\<close> that is the value of a decimal literal is the rational number
    the literal denotes. The products and roundings of the script are then exact; binary
    rounding of very long literals and overflow to infinity are outside the model.
  \<^item> Every exception the script can raise is a value of \<open>py_error\<close>; a function that can
    raise returns \<open>py_error + 'a\<close>.
  \<^item> The external tool, \<^verbatim>\<open>pathlib\<close>, \<^verbatim>\<open>csv\<close> and \<^verbatim>\<open>matplotlib\<close> are not part of the
    script: the tool is a parameter, a directory entry carries the suffix \<^verbatim>\<open>pathlib\<close>
    reports, and the report holds the rows handed to \<^verbatim>\<open>writerow\<close> and the bars handed to
    \<^verbatim>\<open>plt.bar\<close>.
\<close>

subsection \<open>Python's string operations\<close>

definition upper_char :: "char \<Rightarrow> char" where
  "upper_char c =
     (case map_of (zip ''abcdefghijklmnopqrstuvwxyz'' ''ABCDEFGHIJKLMNOPQRSTUVWXYZ'') c of
        Some u \<Rightarrow> u
      | None \<Rightarrow> c)"

definition lower_char :: "char \<Rightarrow> char" where
  "lower_char c =
     (case map_of (zip ''ABCDEFGHIJKLMNOPQRSTUVWXYZ'' ''abcdefghijklmnopqrstuvwxyz'') c of
        Some l \<Rightarrow> l
      | None \<Rightarrow> c)"

definition upper :: "string \<Rightarrow> string" where
  "upper s = map upper_char s"

definition lower :: "string \<Rightarrow> string" where
  "lower s = map lower_char s"

fun startswith :: "string \<Rightarrow> string \<Rightarrow> bool" where
  "startswith hay [] = True"
| "startswith [] (n # ns) = False"
| "startswith (h # hs) (n # ns) = (h = n \<and> startswith hs ns)"

text \<open>\<open>str_in needle hay\<close> is Python's \<^verbatim>\<open>needle in hay\<close> on strings.\<close>

fun str_in :: "string \<Rightarrow> string \<Rightarrow> bool" where
  "str_in needle [] = (needle = [])"
| "str_in needle (h # hs) = (startswith (h # hs) needle \<or> str_in needle hs)"

text \<open>\<open>s or ""\<close> for a value that is a string or \<^verbatim>\<open>None\<close>.\<close>

definition or_empty :: "string option \<Rightarrow> string" where
  "or_empty s = (case s of None \<Rightarrow> [] | Some t \<Rightarrow> t)"

definition is_space :: "char \<Rightarrow> bool" where
  "is_space c \<longleftrightarrow>
     c \<in> set [CHR 0x09, CHR 0x0A, CHR 0x0B, CHR 0x0C, CHR 0x0D,
              CHR 0x1C, CHR 0x1D, CHR 0x1E, CHR 0x1F, CHR 0x20]"

definition strip :: "string \<Rightarrow> string" where
  "strip s = rev (dropWhile is_space (rev (dropWhile is_space s)))"

definition is_linebreak :: "char \<Rightarrow> bool" where
  "is_linebreak c \<longleftrightarrow>
     c \<in> set [CHR 0x0A, CHR 0x0B, CHR 0x0C, CHR 0x0D, CHR 0x1C, CHR 0x1D, CHR 0x1E]"

text \<open>
  \<^verbatim>\<open>str.splitlines\<close>: a carriage return followed by a line feed is one line break, and
  a line break at the very end does not open a further, empty line. The first argument
  is the current line, reversed.
\<close>

fun splitlines_from :: "string \<Rightarrow> string \<Rightarrow> string list" where
  "splitlines_from cur [] = (if cur = [] then [] else [rev cur])"
| "splitlines_from cur (c # cs) =
     (if is_linebreak c then
        (case cs of
           d # ds \<Rightarrow>
             if c = CHR 0x0D \<and> d = CHR 0x0A then rev cur # splitlines_from [] ds
             else rev cur # splitlines_from [] cs
         | [] \<Rightarrow> rev cur # splitlines_from [] cs)
      else splitlines_from (c # cur) cs)"

definition splitlines :: "string \<Rightarrow> string list" where
  "splitlines s = splitlines_from [] s"

subsection \<open>Exceptions\<close>

datatype py_error =
    FileNotFoundError
  | CalledProcessError int
  | ValueError
  | AttributeError

subsection \<open>EXIF helpers\<close>

text \<open>
  What \<^verbatim>\<open>subprocess.run(..., check=True)\<close> meets: the executable is missing, or the
  process ends with a return code and its standard output.
\<close>

datatype tool_result = ToolMissing | ToolExit int string

text \<open>
  A metadata dictionary: a key is absent, or bound to a string or to \<^verbatim>\<open>None\<close>.
  \<open>dict_get\<close> is \<^verbatim>\<open>meta.get(k)\<close>, \<open>dict_get_or\<close> is \<^verbatim>\<open>meta.get(k, d)\<close>.
\<close>

type_synonym meta = "string \<Rightarrow> string option option"

definition dict_get :: "meta \<Rightarrow> string \<Rightarrow> string option" where
  "dict_get m k = (case m k of None \<Rightarrow> None | Some v \<Rightarrow> v)"

definition dict_get_or :: "meta \<Rightarrow> string \<Rightarrow> string \<Rightarrow> string option" where
  "dict_get_or m k d = (case m k of None \<Rightarrow> Some d | Some v \<Rightarrow> v)"

definition exif_keys :: "string list" where
  "exif_keys = [''Make'', ''Model'', ''FL'', ''FL35'', ''FL35Comp'']"

definition exif_vals :: "(string \<Rightarrow> tool_result) \<Rightarrow> string \<Rightarrow> py_error + meta" where
  "exif_vals exiftool path =
     (case exiftool path of
        ToolMissing \<Rightarrow> Inl FileNotFoundError
      | ToolExit rc out \<Rightarrow>
          if rc \<noteq> 0 then Inl (CalledProcessError rc)
          else Inr (map_of (zip exif_keys
                 (map Some (splitlines (strip out)) @ replicate 5 None))))"

definition is_digit :: "char \<Rightarrow> bool" where
  "is_digit c \<longleftrightarrow> c \<in> set ''0123456789''"

definition digit_val :: "char \<Rightarrow> nat" where
  "digit_val c = of_char c - 48"

definition decimal :: "string \<Rightarrow> nat" where
  "decimal ds = foldl (\<lambda>a c. 10 * a + digit_val c) 0 ds"

text \<open>The regular expression \<^verbatim>\<open>([\d.]+)\<close>, matched at the start of the string.\<close>

definition num_match :: "string \<Rightarrow> string option" where
  "num_match s =
     (let g = takeWhile (\<lambda>c. is_digit c \<or> c = CHR ''.'') s
      in if g = [] then None else Some g)"

text \<open>
  \<^verbatim>\<open>float\<close> on a string of digits and dots: digits with at most one dot and at least
  one digit are a number; anything else raises \<^verbatim>\<open>ValueError\<close>.
\<close>

definition float_of_group :: "string \<Rightarrow> py_error + rat" where
  "float_of_group g =
     (let ip = takeWhile is_digit g; rest = dropWhile is_digit g in
      case rest of
        [] \<Rightarrow> if ip = [] then Inl ValueError else Inr (of_nat (decimal ip))
      | dot # fp \<Rightarrow>
          if list_all is_digit fp \<and> (ip \<noteq> [] \<or> fp \<noteq> [])
          then Inr (of_nat (decimal ip) + of_nat (decimal fp) / 10 ^ length fp)
          else Inl ValueError)"

definition to_float :: "string option \<Rightarrow> py_error + rat option" where
  "to_float s =
     (case num_match (or_empty s) of
        None \<Rightarrow> Inr None
      | Some g \<Rightarrow>
          (case float_of_group g of Inl e \<Rightarrow> Inl e | Inr v \<Rightarrow> Inr (Some v)))"

definition camera :: "meta \<Rightarrow> string" where
  "camera m =
     (let make = upper (or_empty (dict_get m ''Make''));
          model = or_empty (dict_get m ''Model'')
      in if str_in ''APPLE'' make then ''iPhone''
         else if str_in ''FUJIFILM'' make
           then (if str_in ''X-T5'' (upper model) then ''XT5'' else model)
         else if model \<noteq> [] then model
         else if make \<noteq> [] then make
         else ''Unknown'')"

definition CROP_APSC :: rat where
  "CROP_APSC = 3 / 2"

text \<open>Python's truth test on a number or \<^verbatim>\<open>None\<close>: \<^verbatim>\<open>None\<close> and zero are false.\<close>

definition truthy :: "rat option \<Rightarrow> bool" where
  "truthy v = (case v of None \<Rightarrow> False | Some x \<Rightarrow> x \<noteq> 0)"

text \<open>The loop of \<^verbatim>\<open>ff_equiv\<close> over the tags: the first tag with a true value returns.\<close>

fun first_tag :: "meta \<Rightarrow> string list \<Rightarrow> py_error + rat option" where
  "first_tag m [] = Inr None"
| "first_tag m (tag # tags) =
     (case to_float (dict_get m tag) of
        Inl e \<Rightarrow> Inl e
      | Inr mm \<Rightarrow> if truthy mm then Inr mm else first_tag m tags)"

definition ff_equiv :: "meta \<Rightarrow> rat option \<Rightarrow> py_error + rat option" where
  "ff_equiv m native =
     (case first_tag m [''FL35Comp'', ''FL35''] of
        Inl e \<Rightarrow> Inl e
      | Inr (Some mm) \<Rightarrow> Inr (Some mm)
      | Inr None \<Rightarrow>
          (case native of
             None \<Rightarrow> Inr None
           | Some n \<Rightarrow>
               (case dict_get_or m ''Make'' [] of
                  None \<Rightarrow> Inl AttributeError
                | Some mk \<Rightarrow>
                    Inr (Some (if str_in ''FUJIFILM'' (upper mk)
                               then n * CROP_APSC else n)))))"

subsection \<open>Counters\<close>

text \<open>
  \<^verbatim>\<open>round\<close> with one argument: to the nearest integer, a tie to the even neighbour.
\<close>

definition py_round :: "rat \<Rightarrow> int" where
  "py_round x =
     (let f = \<lfloor>x\<rfloor>; d = x - of_int f
      in if d < 1 / 2 then f
         else if 1 / 2 < d then f + 1
         else if even f then f else f + 1)"

text \<open>
  A \<^verbatim>\<open>Counter\<close> is a dictionary in insertion order; \<open>incr k\<close> is \<^verbatim>\<open>c[k] += 1\<close>, which
  binds a missing key to 1 at the end.
\<close>

type_synonym 'k counter = "('k \<times> nat) list"

fun incr :: "'k \<Rightarrow> 'k counter \<Rightarrow> 'k counter" where
  "incr k [] = [(k, 1)]"
| "incr k ((k', c) # rest) =
     (if k = k' then (k', c + 1) # rest else (k', c) # incr k rest)"

definition count_of :: "'k counter \<Rightarrow> 'k \<Rightarrow> nat" where
  "count_of c k = (case map_of c k of None \<Rightarrow> 0 | Some n \<Rightarrow> n)"

definition total :: "'k counter \<Rightarrow> nat" where
  "total c = sum_list (map snd c)"

subsection \<open>The scan\<close>

type_synonym counters = "int counter \<times> (string \<times> int \<times> int) counter"

text \<open>What one file yields: native focal length, 35 mm equivalent, camera label.\<close>

definition observe ::
  "(string \<Rightarrow> tool_result) \<Rightarrow> string \<Rightarrow> py_error + (rat option \<times> rat option \<times> string)" where
  "observe exiftool f =
     (case exif_vals exiftool f of
        Inl e \<Rightarrow> Inl e
      | Inr m \<Rightarrow>
          (case to_float (dict_get m ''FL'') of
             Inl e \<Rightarrow> Inl e
           | Inr native \<Rightarrow>
               (case ff_equiv m native of
                  Inl e \<Rightarrow> Inl e
                | Inr ff_mm \<Rightarrow> Inr (native, ff_mm, camera m))))"

fun tally :: "rat option \<times> rat option \<times> string \<Rightarrow> counters \<Rightarrow> counters" where
  "tally (native, ff_mm, cam) (hist, camfx) =
     (case ff_mm of
        None \<Rightarrow> (hist, camfx)
      | Some ff \<Rightarrow>
          if ff = 0 then (hist, camfx)
          else (incr (py_round ff) hist,
                case native of
                  None \<Rightarrow> camfx
                | Some n \<Rightarrow>
                    if n = 0 then camfx
                    else incr (cam, py_round n, py_round ff) camfx))"

fun scan :: "(string \<Rightarrow> tool_result) \<Rightarrow> string list \<Rightarrow> counters \<Rightarrow> py_error + counters" where
  "scan exiftool [] st = Inr st"
| "scan exiftool (f # fs) st =
     (case observe exiftool f of
        Inl e \<Rightarrow> Inl e
      | Inr obs \<Rightarrow> scan exiftool fs (tally obs st))"

subsection \<open>The program\<close>

definition IMG_EXTS :: "string list" where
  "IMG_EXTS = [''.jpg'', ''.jpeg'', ''.heic'', ''.heif'']"

record dir_entry =
  entry_path :: string
  entry_suffix :: string

record world =
  root :: string
  is_dir :: bool
  rglob :: "dir_entry list"
  exiftool :: "string \<Rightarrow> tool_result"

datatype cell = Str string | Num int

record report =
  histogram_csv :: "cell list list"
  camera_csv :: "cell list list"
  chart_bars :: "(int \<times> nat) list"

text \<open>
  How the process ends: \<^verbatim>\<open>sys.exit\<close> with a message, an exception nobody catches, or
  the end of \<^verbatim>\<open>main\<close> with the three files written.
\<close>

datatype outcome = SysExit string | Uncaught py_error | Done report

definition image_files :: "world \<Rightarrow> string list" where
  "image_files w =
     map entry_path (filter (\<lambda>e. lower (entry_suffix e) \<in> set IMG_EXTS) (rglob w))"

definition hist_row :: "int \<times> nat \<Rightarrow> cell list" where
  "hist_row r = [Num (fst r), Num (int (snd r))]"

definition camfx_row :: "(string \<times> int \<times> int) \<times> nat \<Rightarrow> cell list" where
  "camfx_row r =
     (case r of ((cam, nmm, ffmm), c) \<Rightarrow> [Str cam, Num nmm, Num ffmm, Num (int c)])"

definition write_report :: "counters \<Rightarrow> report" where
  "write_report st =
     \<lparr> histogram_csv =
         [Str ''focal_mm_35eq'', Str ''count''] # map hist_row (sort (fst st)),
       camera_csv =
         [Str ''camera'', Str ''native_mm'', Str ''focal_mm_35eq'', Str ''count'']
           # map camfx_row (sort (snd st)),
       chart_bars = sort (fst st) \<rparr>"

definition main :: "world \<Rightarrow> outcome" where
  "main w =
     (if \<not> is_dir w then SysExit (''Folder not found: '' @ root w)
      else if image_files w = [] then SysExit ''No supported images found.''
      else
        (case scan (exiftool w) (image_files w) ([], []) of
           Inl e \<Rightarrow> Uncaught e
         | Inr st \<Rightarrow>
             if fst st = [] then SysExit ''No focal-length data found (tags missing).''
             else Done (write_report st)))"

text \<open>
  The exit status (\<^verbatim>\<open>sys.exit\<close> with a string and an uncaught exception both give 1)
  and the files the run leaves in the folder.
\<close>

definition exit_status :: "outcome \<Rightarrow> nat" where
  "exit_status r = (case r of Done _ \<Rightarrow> 0 | _ \<Rightarrow> 1)"

definition files_written :: "outcome \<Rightarrow> string list" where
  "files_written r =
     (case r of
        Done _ \<Rightarrow>
          [''focal_length_histogram.csv'', ''camera_focal_usage.csv'',
           ''focal_length_histogram.png'']
      | _ \<Rightarrow> [])"

subsection \<open>Notions used to state the properties\<close>

text \<open>
  The histogram key a file's observation is counted under (the test \<^verbatim>\<open>if ff_mm\<close>
  followed by \<^verbatim>\<open>round(ff_mm)\<close>), and likewise the key of the per-camera counter
  (the test \<^verbatim>\<open>if native and ff_mm\<close>). \<open>None\<close>: the observation is not counted.
\<close>

definition obs_hist_key :: "rat option \<times> rat option \<times> string \<Rightarrow> int option" where
  "obs_hist_key obs =
     (case obs of (native, ff_mm, cam) \<Rightarrow>
        if truthy ff_mm then map_option py_round ff_mm else None)"

definition obs_camfx_key ::
  "rat option \<times> rat option \<times> string \<Rightarrow> (string \<times> int \<times> int) option" where
  "obs_camfx_key obs =
     (case obs of (native, ff_mm, cam) \<Rightarrow>
        if truthy native \<and> truthy ff_mm
        then (case (native, ff_mm) of
                (Some n, Some ff) \<Rightarrow> Some (cam, py_round n, py_round ff)
              | _ \<Rightarrow> None)
        else None)"

definition hist_key :: "(string \<Rightarrow> tool_result) \<Rightarrow> string \<Rightarrow> int option" where
  "hist_key tool f =
     (case observe tool f of Inl e \<Rightarrow> None | Inr obs \<Rightarrow> obs_hist_key obs)"

definition camfx_key ::
  "(string \<Rightarrow> tool_result) \<Rightarrow> string \<Rightarrow> (string \<times> int \<times> int) option" where
  "camfx_key tool f =
     (case observe tool f of Inl e \<Rightarrow> None | Inr obs \<Rightarrow> obs_camfx_key obs)"

text \<open>A file yields a usable 35 mm equivalent when it is counted in the histogram.\<close>

definition usable :: "(string \<Rightarrow> tool_result) \<Rightarrow> string \<Rightarrow> bool" where
  "usable tool f \<longleftrightarrow> hist_key tool f \<noteq> None"

text \<open>The external tool fails for a file: it is missing, or its return code is not 0.\<close>

definition tool_fails :: "tool_result \<Rightarrow> bool" where
  "tool_fails r = (case r of ToolMissing \<Rightarrow> True | ToolExit rc out \<Rightarrow> rc \<noteq> 0)"

text \<open>
  A counter as a dictionary: no key twice, and no key bound to zero.
\<close>

definition well_formed :: "'k counter \<Rightarrow> bool" where
  "well_formed c \<longleftrightarrow> distinct (map fst c) \<and> (\<forall>x\<in>set c. 0 < snd x)"

section \<open>Properties\<close>

subsection \<open>Evaluation\<close>

lemma floor_rat_numeral_div:
  "\<lfloor>numeral a / numeral b :: rat\<rfloor> = numeral a div numeral b"
proof -
  have "\<lfloor>of_int (numeral a) / of_int (numeral b) :: rat\<rfloor> = numeral a div numeral b"
    by (rule floor_divide_of_int_eq)
  then show ?thesis by simp
qed

lemma replicate_5: "replicate 5 x = [x, x, x, x, x]"
  by (simp add: numeral_eq_Suc)

lemmas model_defs =
  replicate_5
  observe_def exif_vals_def exif_keys_def dict_get_def dict_get_or_def
  ff_equiv_def truthy_def camera_def CROP_APSC_def py_round_def Let_def
  floor_rat_numeral_div tally.simps

lemmas text_defs =
  upper_def upper_char_def lower_def lower_char_def or_empty_def
  is_space_def strip_def is_linebreak_def splitlines_def

lemmas number_defs =
  to_float_def num_match_def is_digit_def float_of_group_def decimal_def digit_val_def

lemmas main_defs =
  main_def image_files_def IMG_EXTS_def exit_status_def files_written_def
  write_report_def hist_row_def camfx_row_def

subsection \<open>Counters and the scan\<close>

declare tally.simps [simp del]

lemma tally_keys:
  "tally obs st =
     ((case obs_hist_key obs of None \<Rightarrow> fst st | Some k \<Rightarrow> incr k (fst st)),
      (case obs_camfx_key obs of None \<Rightarrow> snd st | Some k \<Rightarrow> incr k (snd st)))"
  by (cases obs; cases st)
     (auto simp: tally.simps obs_hist_key_def obs_camfx_key_def truthy_def split: option.splits)

lemma count_of_incr:
  "count_of (incr k c) k' = (if k' = k then count_of c k + 1 else count_of c k')"
  by (induction c) (auto simp: count_of_def)

lemma total_incr: "total (incr k c) = total c + 1"
  by (induction c) (auto simp: total_def)

lemma keys_incr: "set (map fst (incr k c)) = insert k (set (map fst c))"
proof (induction c)
  case Nil
  show ?case by simp
next
  case (Cons p c)
  obtain k' n where p: "p = (k', n)" by (cases p)
  show ?case
  proof (cases "k = k'")
    case True
    then show ?thesis by (simp add: p insert_absorb)
  next
    case False
    with Cons.IH show ?thesis by (simp add: p insert_commute)
  qed
qed

lemma distinct_incr: "distinct (map fst c) \<Longrightarrow> distinct (map fst (incr k c))"
proof (induction c)
  case Nil
  show ?case by simp
next
  case (Cons p c)
  obtain k' n where p: "p = (k', n)" by (cases p)
  show ?case
  proof (cases "k = k'")
    case True
    with Cons.prems show ?thesis by (simp add: p)
  next
    case False
    have "k' \<notin> set (map fst (incr k c))"
      using Cons.prems False unfolding keys_incr by (simp add: p)
    with Cons show ?thesis using False by (simp add: p)
  qed
qed

lemma positive_incr:
  "(\<forall>x\<in>set c. 0 < snd x) \<Longrightarrow> x \<in> set (incr k c) \<Longrightarrow> 0 < snd x"
proof (induction c)
  case Nil
  then show ?case by simp
next
  case (Cons p c)
  obtain k' n where p: "p = (k', n)" by (cases p)
  show ?case
  proof (cases "k = k'")
    case True
    with Cons.prems show ?thesis by (auto simp: p)
  next
    case False
    with Cons show ?thesis by (auto simp: p)
  qed
qed

lemma scan_append:
  "scan tool (pre @ post) st =
     (case scan tool pre st of Inl e \<Rightarrow> Inl e | Inr mid \<Rightarrow> scan tool post mid)"
  by (induction pre arbitrary: st) (auto split: sum.splits)

lemma scan_hist_count:
  "scan tool fs st = Inr st' \<Longrightarrow>
   count_of (fst st') k =
     count_of (fst st) k + length (filter (\<lambda>f. hist_key tool f = Some k) fs)"
proof (induction fs arbitrary: st)
  case Nil
  then show ?case by simp
next
  case (Cons f fs)
  then obtain obs where obs: "observe tool f = Inr obs"
    and rest: "scan tool fs (tally obs st) = Inr st'"
    by (auto split: sum.splits)
  from Cons.IH [OF rest] obs show ?case
    by (auto simp: hist_key_def tally_keys count_of_incr split: option.splits)
qed

lemma scan_camfx_count:
  "scan tool fs st = Inr st' \<Longrightarrow>
   count_of (snd st') k =
     count_of (snd st) k + length (filter (\<lambda>f. camfx_key tool f = Some k) fs)"
proof (induction fs arbitrary: st)
  case Nil
  then show ?case by simp
next
  case (Cons f fs)
  then obtain obs where obs: "observe tool f = Inr obs"
    and rest: "scan tool fs (tally obs st) = Inr st'"
    by (auto split: sum.splits)
  from Cons.IH [OF rest] obs show ?case
    by (auto simp: camfx_key_def tally_keys count_of_incr split: option.splits)
qed

lemma scan_hist_total:
  "scan tool fs st = Inr st' \<Longrightarrow>
   total (fst st') = total (fst st) + length (filter (usable tool) fs)"
proof (induction fs arbitrary: st)
  case Nil
  then show ?case by simp
next
  case (Cons f fs)
  then obtain obs where obs: "observe tool f = Inr obs"
    and rest: "scan tool fs (tally obs st) = Inr st'"
    by (auto split: sum.splits)
  from Cons.IH [OF rest] obs show ?case
    by (auto simp: usable_def hist_key_def tally_keys total_incr split: option.splits)
qed

lemma scan_camfx_total:
  "scan tool fs st = Inr st' \<Longrightarrow>
   total (snd st') = total (snd st) + length (filter (\<lambda>f. camfx_key tool f \<noteq> None) fs)"
proof (induction fs arbitrary: st)
  case Nil
  then show ?case by simp
next
  case (Cons f fs)
  then obtain obs where obs: "observe tool f = Inr obs"
    and rest: "scan tool fs (tally obs st) = Inr st'"
    by (auto split: sum.splits)
  from Cons.IH [OF rest] obs show ?case
    by (auto simp: camfx_key_def tally_keys total_incr split: option.splits)
qed

lemma well_formed_incr: "well_formed c \<Longrightarrow> well_formed (incr k c)"
  unfolding well_formed_def using distinct_incr [of c k] positive_incr [of c _ k] by blast

lemma well_formed_tally:
  "well_formed (fst st) \<Longrightarrow> well_formed (snd st) \<Longrightarrow>
   well_formed (fst (tally obs st)) \<and> well_formed (snd (tally obs st))"
  by (auto simp: tally_keys well_formed_incr split: option.splits)

lemma scan_well_formed:
  "scan tool fs st = Inr st' \<Longrightarrow> well_formed (fst st) \<Longrightarrow> well_formed (snd st) \<Longrightarrow>
   well_formed (fst st') \<and> well_formed (snd st')"
proof (induction fs arbitrary: st)
  case Nil
  then show ?case by simp
next
  case (Cons f fs)
  then obtain obs where obs: "observe tool f = Inr obs"
    and rest: "scan tool fs (tally obs st) = Inr st'"
    by (auto split: sum.splits)
  from well_formed_tally [OF Cons.prems(2,3)] Cons.IH [OF rest] show ?case
    by blast
qed

lemma scan_raises:
  "f \<in> set fs \<Longrightarrow> observe tool f = Inl e \<Longrightarrow> \<exists>e'. scan tool fs st = Inl e'"
proof (induction fs arbitrary: st)
  case Nil
  then show ?case by simp
next
  case (Cons g fs)
  show ?case
  proof (cases "observe tool g")
    case (Inl e0)
    then show ?thesis by simp
  next
    case (Inr obs)
    with Cons.prems have "f \<in> set fs" by auto
    from Cons.IH [OF this Cons.prems(2)] Inr show ?thesis by simp
  qed
qed

lemma exif_vals_tool_fails:
  "tool_fails (tool f) \<Longrightarrow> \<exists>e. exif_vals tool f = Inl e"
  by (cases "tool f") (simp_all add: tool_fails_def exif_vals_def)

lemma observe_tool_fails:
  "tool_fails (tool f) \<Longrightarrow> \<exists>e. observe tool f = Inl e"
  using exif_vals_tool_fails [of tool f] by (auto simp: observe_def)

lemma filter_length_mono:
  "(\<And>x. x \<in> set xs \<Longrightarrow> P x \<Longrightarrow> Q x) \<Longrightarrow> length (filter P xs) \<le> length (filter Q xs)"
  by (induction xs) auto

lemma filter_length_strict:
  assumes "\<And>x. x \<in> set xs \<Longrightarrow> P x \<Longrightarrow> Q x" and "y \<in> set xs" and "Q y" and "\<not> P y"
  shows "length (filter P xs) < length (filter Q xs)"
  using assms
proof (induction xs)
  case Nil
  then show ?case by simp
next
  case (Cons x xs)
  have mono: "length (filter P xs) \<le> length (filter Q xs)"
    using Cons.prems(1) by (intro filter_length_mono) auto
  show ?case
  proof (cases "y = x")
    case True
    with Cons.prems(3,4) mono show ?thesis by simp
  next
    case False
    with Cons.prems have "y \<in> set xs" by simp
    then have "length (filter P xs) < length (filter Q xs)"
      using Cons.IH Cons.prems by simp
    with Cons.prems(1) [of x] show ?thesis by auto
  qed
qed

lemma camfx_key_implies_hist_key:
  "camfx_key tool f \<noteq> None \<Longrightarrow> usable tool f"
  by (auto simp: camfx_key_def usable_def hist_key_def obs_camfx_key_def obs_hist_key_def
      truthy_def split: sum.splits option.splits prod.splits if_splits)

lemma scan_unusable:
  "scan tool fs st = Inr st' \<Longrightarrow> (\<And>f. f \<in> set fs \<Longrightarrow> \<not> usable tool f) \<Longrightarrow> fst st' = fst st"
proof (induction fs arbitrary: st)
  case Nil
  then show ?case by simp
next
  case (Cons f fs)
  from Cons.prems(1) obtain obs where obs: "observe tool f = Inr obs"
    and rest: "scan tool fs (tally obs st) = Inr st'"
    by (auto split: sum.splits)
  from Cons.prems(2) [of f] obs have "obs_hist_key obs = None"
    by (simp add: usable_def hist_key_def)
  then have "fst (tally obs st) = fst st"
    by (simp add: tally_keys)
  moreover have "fst st' = fst (tally obs st)"
    using Cons.IH [OF rest] Cons.prems(2) by simp
  ultimately show ?case by simp
qed

lemma main_tool_failure:
  assumes "is_dir w" and "f \<in> set (image_files w)" and "tool_fails (exiftool w f)"
  shows "\<exists>e. main w = Uncaught e"
proof -
  from observe_tool_fails [of "exiftool w" f] assms(3)
  obtain e where "observe (exiftool w) f = Inl e" by blast
  from scan_raises [OF assms(2) this]
  obtain e' where "scan (exiftool w) (image_files w) ([], []) = Inl e'" ..
  moreover from assms(2) have "image_files w \<noteq> []" by auto
  ultimately show ?thesis using assms(1) by (simp add: main_def)
qed

lemma well_formed_key_iff:
  "well_formed c \<Longrightarrow> k \<in> set (map fst c) \<longleftrightarrow> 0 < count_of c k"
proof
  assume wf: "well_formed c" and "k \<in> set (map fst c)"
  then obtain n where kn: "(k, n) \<in> set c" by auto
  with wf have "map_of c k = Some n" "0 < n"
    by (auto simp: well_formed_def)
  then show "0 < count_of c k" by (simp add: count_of_def)
next
  assume "0 < count_of c k"
  then obtain n where "map_of c k = Some n"
    by (auto simp: count_of_def split: option.splits)
  then show "k \<in> set (map fst c)"
    by (auto dest: map_of_SomeD intro: rev_image_eqI)
qed

subsection \<open>The normalizer\<close>

lemma to_float_absent: "num_match (or_empty s) = None \<Longrightarrow> to_float s = Inr None"
  by (simp add: to_float_def)

lemma first_tag_falsy:
  assumes "to_float (dict_get m ''FL35Comp'') = Inr c" "\<not> truthy c"
    and "to_float (dict_get m ''FL35'') = Inr s" "\<not> truthy s"
  shows "first_tag m [''FL35Comp'', ''FL35''] = Inr None"
  using assms by simp

lemma falsy_cases: "\<not> truthy v \<longleftrightarrow> v = None \<or> v = Some 0"
  by (cases v) (auto simp: truthy_def)

lemma ff_equiv_composite:
  assumes "to_float (dict_get m ''FL35Comp'') = Inr (Some c)" "c \<noteq> 0"
  shows "ff_equiv m native = Inr (Some c)"
  using assms by (simp add: ff_equiv_def truthy_def)

lemma ff_equiv_separate:
  assumes "to_float (dict_get m ''FL35Comp'') = Inr c" "\<not> truthy c"
    and "to_float (dict_get m ''FL35'') = Inr (Some s)" "s \<noteq> 0"
  shows "ff_equiv m native = Inr (Some s)"
  using assms by (simp add: ff_equiv_def truthy_def)

lemma ff_equiv_fallback:
  assumes "to_float (dict_get m ''FL35Comp'') = Inr c" "\<not> truthy c"
    and "to_float (dict_get m ''FL35'') = Inr s" "\<not> truthy s"
  shows "ff_equiv m native =
     (case native of
        None \<Rightarrow> Inr None
      | Some n \<Rightarrow>
          (case dict_get_or m ''Make'' [] of
             None \<Rightarrow> Inl AttributeError
           | Some mk \<Rightarrow>
               Inr (Some (if str_in ''FUJIFILM'' (upper mk) then n * CROP_APSC else n))))"
  using first_tag_falsy [OF assms] by (simp add: ff_equiv_def)

subsection \<open>The extractor's output\<close>

lemma short_list_cases:
  "length xs < 5 \<Longrightarrow>
     xs = [] \<or> (\<exists>a. xs = [a]) \<or> (\<exists>a b. xs = [a, b]) \<or> (\<exists>a b c. xs = [a, b, c])
     \<or> (\<exists>a b c d. xs = [a, b, c, d])"
  by (auto simp: less_Suc_eq numeral_eq_Suc length_Suc_conv)

lemma below_5: "i < 5 \<longleftrightarrow> i = 0 \<or> i = 1 \<or> i = 2 \<or> i = 3 \<or> i = (4::nat)"
  by auto

lemma short_output_fields:
  assumes "length ls < 5" and "i < 5"
  shows "dict_get (map_of (zip exif_keys (map Some ls @ replicate 5 None))) (exif_keys ! i)
     = (if i < length ls then Some (ls ! i) else None)"
  using short_list_cases [OF assms(1)] assms(2) unfolding below_5
  by (elim disjE exE) (simp_all add: exif_keys_def dict_get_def replicate_5)

section \<open>The claims\<close>

subsection \<open>C1: a failing tool invocation\<close>

text \<open>
  C1, as amended. \<^verbatim>\<open>exif_vals\<close> runs the tool with \<^verbatim>\<open>check=True\<close> and \<^verbatim>\<open>main\<close> calls
  it outside any \<^verbatim>\<open>try\<close>: when the tool is missing or returns a non-zero code for some
  discovered image file, the run ends with an exception nobody catches, the exit status
  is 1 and no output file is written.
\<close>

theorem tool_failure_aborts_run:
  assumes "is_dir w" and "f \<in> set (image_files w)" and "tool_fails (exiftool w f)"
  shows "(\<exists>e. main w = Uncaught e) \<and> exit_status (main w) = 1 \<and> files_written (main w) = []"
  using main_tool_failure [OF assms] by (auto simp: exit_status_def files_written_def)

theorem tool_failure_aborts_run_witness:
  "is_dir \<lparr> root = ''photos'', is_dir = True,
       rglob = [\<lparr> entry_path = ''a.jpg'', entry_suffix = ''.jpg'' \<rparr>,
                \<lparr> entry_path = ''b.HEIC'', entry_suffix = ''.HEIC'' \<rparr>],
       exiftool = (\<lambda>p. if p = ''a.jpg'' then ToolMissing
                        else ToolExit 0 ''Apple\<newline>iPhone 15\<newline>6.9 mm\<newline>26 mm'') \<rparr>
   \<and> exit_status (main \<lparr> root = ''photos'', is_dir = True,
       rglob = [\<lparr> entry_path = ''a.jpg'', entry_suffix = ''.jpg'' \<rparr>,
                \<lparr> entry_path = ''b.HEIC'', entry_suffix = ''.HEIC'' \<rparr>],
       exiftool = (\<lambda>p. if p = ''a.jpg'' then ToolMissing
                        else ToolExit 0 ''Apple\<newline>iPhone 15\<newline>6.9 mm\<newline>26 mm'') \<rparr>) = 1
   \<and> files_written (main \<lparr> root = ''photos'', is_dir = True,
       rglob = [\<lparr> entry_path = ''a.jpg'', entry_suffix = ''.jpg'' \<rparr>,
                \<lparr> entry_path = ''b.HEIC'', entry_suffix = ''.HEIC'' \<rparr>],
       exiftool = (\<lambda>p. if p = ''a.jpg'' then ToolMissing
                        else ToolExit 0 ''Apple\<newline>iPhone 15\<newline>6.9 mm\<newline>26 mm'') \<rparr>) = []"
proof -
  define w where "w = \<lparr> root = ''photos'', is_dir = True,
       rglob = [\<lparr> entry_path = ''a.jpg'', entry_suffix = ''.jpg'' \<rparr>,
                \<lparr> entry_path = ''b.HEIC'', entry_suffix = ''.HEIC'' \<rparr>],
       exiftool = (\<lambda>p. if p = ''a.jpg'' then ToolMissing
                        else ToolExit 0 ''Apple\<newline>iPhone 15\<newline>6.9 mm\<newline>26 mm'') \<rparr>"
  have 1: "is_dir w"
    by (simp add: w_def)
  have 2: "''a.jpg'' \<in> set (image_files w)"
    by (simp add: w_def image_files_def IMG_EXTS_def text_defs)
  have 3: "tool_fails (exiftool w ''a.jpg'')"
    by (simp add: w_def tool_fails_def)
  from tool_failure_aborts_run [OF 1 2 3] 1 show ?thesis
    unfolding w_def by blast
qed

text \<open>
  C1 as stated fails. With the single file \<^verbatim>\<open>a.jpg\<close> the run writes its report; with a
  second file for which the tool returns code 1, the same run ends in
  \<^verbatim>\<open>CalledProcessError\<close>: the scan does not continue, and nothing is reported for
  \<^verbatim>\<open>a.jpg\<close> either.
\<close>

theorem one_failing_file_loses_the_run:
  "main \<lparr> root = ''photos'', is_dir = True,
       rglob = [\<lparr> entry_path = ''a.jpg'', entry_suffix = ''.jpg'' \<rparr>],
       exiftool = (\<lambda>p. if p = ''b.jpg'' then ToolExit 1 []
                        else ToolExit 0 ''Apple\<newline>iPhone 15\<newline>6.9 mm\<newline>26 mm'') \<rparr>
     = Done \<lparr> histogram_csv = [[Str ''focal_mm_35eq'', Str ''count''], [Num 26, Num 1]],
              camera_csv = [[Str ''camera'', Str ''native_mm'', Str ''focal_mm_35eq'', Str ''count''],
                            [Str ''iPhone'', Num 7, Num 26, Num 1]],
              chart_bars = [(26, 1)] \<rparr>
   \<and> main \<lparr> root = ''photos'', is_dir = True,
       rglob = [\<lparr> entry_path = ''a.jpg'', entry_suffix = ''.jpg'' \<rparr>,
                \<lparr> entry_path = ''b.jpg'', entry_suffix = ''.jpg'' \<rparr>],
       exiftool = (\<lambda>p. if p = ''b.jpg'' then ToolExit 1 []
                        else ToolExit 0 ''Apple\<newline>iPhone 15\<newline>6.9 mm\<newline>26 mm'') \<rparr>
     = Uncaught (CalledProcessError 1)"
proof -
  have good: "observe (\<lambda>p. if p = ''b.jpg'' then ToolExit 1 []
         else ToolExit 0 ''Apple\<newline>iPhone 15\<newline>6.9 mm\<newline>26 mm'') ''a.jpg''
      = Inr (Some (69 / 10), Some 26, ''iPhone'')"
    by (simp add: model_defs text_defs number_defs)
  have bad: "observe (\<lambda>p. if p = ''b.jpg'' then ToolExit 1 []
         else ToolExit 0 ''Apple\<newline>iPhone 15\<newline>6.9 mm\<newline>26 mm'') ''b.jpg''
      = Inl (CalledProcessError 1)"
    by (simp add: observe_def exif_vals_def)
  have suffix: "lower ''.jpg'' = ''.jpg''"
    by (simp add: text_defs)
  have seven: "py_round (69 / 10) = 7" "py_round 26 = 26"
    by (simp_all add: py_round_def Let_def floor_rat_numeral_div)
  show ?thesis
    by (simp add: main_defs suffix good bad tally.simps seven)
qed

subsection \<open>C2: the crop factor and the histogram key\<close>

text \<open>
  C2, as amended. When neither 35 mm tag gives a value that counts as true and the native
  focal length \<open>n\<close> is known, \<^verbatim>\<open>ff_equiv\<close> returns \<open>n\<close> times 1.5 if the upper-cased
  manufacturer text contains \<^verbatim>\<open>FUJIFILM\<close> and \<open>n\<close> itself otherwise; a non-zero result
  is counted under the key \<^verbatim>\<open>round\<close> gives it. \<^verbatim>\<open>round\<close> sends a tie to the even
  neighbour: native 23 with the marker is 34.5 and is counted under 34, native 23
  without the marker under 23.
\<close>

theorem crop_factor_rule:
  assumes "to_float (dict_get m ''FL35Comp'') = Inr c" "\<not> truthy c"
    and "to_float (dict_get m ''FL35'') = Inr s" "\<not> truthy s"
    and "dict_get_or m ''Make'' [] = Some mk"
    and "factor = (if str_in ''FUJIFILM'' (upper mk) then 3 / 2 else 1)"
  shows "ff_equiv m (Some n) = Inr (Some (n * factor))
    \<and> (n \<noteq> 0 \<longrightarrow>
         fst (tally (Some n, Some (n * factor), cam) (hist, camfx))
           = incr (py_round (n * factor)) hist)
    \<and> py_round (23 * (3 / 2)) = 34
    \<and> py_round (23 * 1) = 23"
proof -
  have "ff_equiv m (Some n) = Inr (Some (n * factor))"
    using ff_equiv_fallback [OF assms(1-4), of "Some n"] assms(5,6)
    by (simp add: CROP_APSC_def)
  moreover have "factor \<noteq> 0"
    using assms(6) by simp
  moreover have "py_round (23 * (3 / 2)) = 34" "py_round (23 * 1) = 23"
    by (simp_all add: py_round_def Let_def floor_rat_numeral_div)
  ultimately show ?thesis
    by (simp add: tally.simps)
qed

theorem crop_factor_rule_witness:
  "ff_equiv (map_of [(''Make'', Some ''Fujifilm''), (''Model'', Some ''X-T5''),
       (''FL'', Some ''23.0 mm''), (''FL35'', None), (''FL35Comp'', None)]) (Some 23)
     = Inr (Some (23 * (3 / 2)))
   \<and> fst (tally (Some 23, Some (23 * (3 / 2)), ''XT5'') ([], [])) = [(34, 1)]"
proof -
  define m :: meta where "m = map_of [(''Make'', Some ''Fujifilm''), (''Model'', Some ''X-T5''),
       (''FL'', Some ''23.0 mm''), (''FL35'', None), (''FL35Comp'', None)]"
  have 1: "to_float (dict_get m ''FL35Comp'') = Inr None"
    by (simp add: m_def dict_get_def number_defs or_empty_def)
  have 2: "to_float (dict_get m ''FL35'') = Inr None"
    by (simp add: m_def dict_get_def number_defs or_empty_def)
  have 3: "\<not> truthy None"
    by (simp add: truthy_def)
  have 4: "dict_get_or m ''Make'' [] = Some ''Fujifilm''"
    by (simp add: m_def dict_get_or_def)
  have 5: "(3 / 2 :: rat) = (if str_in ''FUJIFILM'' (upper ''Fujifilm'') then 3 / 2 else 1)"
    by (simp add: text_defs)
  show ?thesis
    using crop_factor_rule [OF 1 3 2 3 4 5, of 23 "''XT5''" "[]" "[]"]
    unfolding m_def by simp
qed

text \<open>
  C2 as stated fails at its own example: for a Fujifilm file with native focal length
  23 mm and no 35 mm tag the equivalent is 34.5, and the file is counted under 34, not 35.
\<close>

theorem half_rounds_to_even:
  "ff_equiv (map_of [(''Make'', Some ''FUJIFILM''), (''Model'', Some ''X-T5''),
       (''FL'', Some ''23.0 mm''), (''FL35'', None), (''FL35Comp'', None)]) (Some 23)
     = Inr (Some (69 / 2))
   \<and> py_round (69 / 2) = 34
   \<and> scan (\<lambda>p. ToolExit 0 ''FUJIFILM\<newline>X-T5\<newline>23.0 mm'') [''a.jpg''] ([], [])
     = Inr ([(34, 1)], [((''XT5'', 23, 34), 1)])"
proof -
  have "observe (\<lambda>p. ToolExit 0 ''FUJIFILM\<newline>X-T5\<newline>23.0 mm'') ''a.jpg''
      = Inr (Some 23, Some (69 / 2), ''XT5'')"
    by (simp add: model_defs text_defs number_defs)
  moreover have "py_round (69 / 2) = 34" "py_round 23 = 23"
    by (simp_all add: py_round_def Let_def floor_rat_numeral_div)
  moreover have "ff_equiv (map_of [(''Make'', Some ''FUJIFILM''), (''Model'', Some ''X-T5''),
       (''FL'', Some ''23.0 mm''), (''FL35'', None), (''FL35Comp'', None)]) (Some 23)
     = Inr (Some (69 / 2))"
    by (simp add: model_defs text_defs number_defs)
  ultimately show ?thesis
    by (simp add: tally.simps)
qed

subsection \<open>C3: the histogram counts the usable files\<close>

text \<open>
  C3. After a scan that completes, the counts of the overall histogram add up to the
  number of scanned files with a usable 35 mm equivalent, each key is bound to the number
  of files counted under it, no key is bound to zero (and none occurs twice), a file
  without a usable value leaves the histogram as it is, and at every point of the scan
  the counts and the keys are below the final ones.
\<close>

theorem histogram_counts_usable_files:
  assumes "scan tool (pre @ post) ([], []) = Inr fin"
  shows "total (fst fin) = length (filter (usable tool) (pre @ post))
    \<and> (\<forall>k. count_of (fst fin) k = length (filter (\<lambda>f. hist_key tool f = Some k) (pre @ post)))
    \<and> well_formed (fst fin)
    \<and> (\<forall>f obs st. observe tool f = Inr obs \<and> \<not> usable tool f \<longrightarrow> fst (tally obs st) = fst st)
    \<and> (\<exists>mid. scan tool pre ([], []) = Inr mid
          \<and> (\<forall>k. count_of (fst mid) k \<le> count_of (fst fin) k)
          \<and> set (map fst (fst mid)) \<subseteq> set (map fst (fst fin)))"
proof -
  have empty: "well_formed ([] :: int counter)" "well_formed ([] :: (string \<times> int \<times> int) counter)"
    by (simp_all add: well_formed_def)
  have "total (fst fin) = length (filter (usable tool) (pre @ post))"
    using scan_hist_total [OF assms] by (simp add: total_def)
  moreover have "count_of (fst fin) k = length (filter (\<lambda>f. hist_key tool f = Some k) (pre @ post))" for k
    using scan_hist_count [OF assms, of k] by (simp add: count_of_def)
  moreover have wf_fin: "well_formed (fst fin)"
    using scan_well_formed [OF assms] empty by simp
  moreover have "fst (tally obs st) = fst st" if "observe tool f = Inr obs" "\<not> usable tool f" for f obs st
    using that by (simp add: usable_def hist_key_def tally_keys)
  moreover have "\<exists>mid. scan tool pre ([], []) = Inr mid
          \<and> (\<forall>k. count_of (fst mid) k \<le> count_of (fst fin) k)
          \<and> set (map fst (fst mid)) \<subseteq> set (map fst (fst fin))"
  proof -
    from assms obtain mid where mid: "scan tool pre ([], []) = Inr mid"
      and post: "scan tool post mid = Inr fin"
      by (auto simp: scan_append split: sum.splits)
    have le: "count_of (fst mid) k \<le> count_of (fst fin) k" for k
      using scan_hist_count [OF post, of k] by simp
    have wf_mid: "well_formed (fst mid)"
      using scan_well_formed [OF mid] empty by simp
    have "set (map fst (fst mid)) \<subseteq> set (map fst (fst fin))"
    proof
      fix k assume "k \<in> set (map fst (fst mid))"
      then have "0 < count_of (fst mid) k"
        using well_formed_key_iff [OF wf_mid] by simp
      with le [of k] have "0 < count_of (fst fin) k" by simp
      then show "k \<in> set (map fst (fst fin))"
        using well_formed_key_iff [OF wf_fin] by simp
    qed
    with mid le show ?thesis by blast
  qed
  ultimately show ?thesis by blast
qed


theorem histogram_counts_usable_files_witness:
  "scan (\<lambda>p. if p = ''b.jpg'' then ToolExit 0 ''Canon\<newline>EOS 5D''
              else ToolExit 0 ''Apple\<newline>iPhone 15\<newline>6.9 mm\<newline>26 mm'')
       ([''a.jpg''] @ [''b.jpg'', ''c.jpg'']) ([], [])
     = Inr ([(26, 2)], [((''iPhone'', 7, 26), 2)])
   \<and> length (filter (usable (\<lambda>p. if p = ''b.jpg'' then ToolExit 0 ''Canon\<newline>EOS 5D''
              else ToolExit 0 ''Apple\<newline>iPhone 15\<newline>6.9 mm\<newline>26 mm''))
       ([''a.jpg''] @ [''b.jpg'', ''c.jpg''])) = 2
   \<and> well_formed [(26 :: int, 2 :: nat)]"
proof -
  define tool where "tool = (\<lambda>p. if p = ''b.jpg'' then ToolExit 0 ''Canon\<newline>EOS 5D''
              else ToolExit 0 ''Apple\<newline>iPhone 15\<newline>6.9 mm\<newline>26 mm'')"
  have a: "observe tool ''a.jpg'' = Inr (Some (69 / 10), Some 26, ''iPhone'')"
    by (simp add: tool_def model_defs text_defs number_defs)
  have b: "observe tool ''b.jpg'' = Inr (None, None, ''EOS 5D'')"
    by (simp add: tool_def model_defs text_defs number_defs)
  have c: "observe tool ''c.jpg'' = Inr (Some (69 / 10), Some 26, ''iPhone'')"
    by (simp add: tool_def model_defs text_defs number_defs)
  have r: "py_round (69 / 10) = 7" "py_round 26 = 26"
    by (simp_all add: py_round_def Let_def floor_rat_numeral_div)
  have s: "scan tool ([''a.jpg''] @ [''b.jpg'', ''c.jpg'']) ([], [])
      = Inr ([(26, 2)], [((''iPhone'', 7, 26), 2)])"
    by (simp add: a b c r tally.simps)
  from histogram_counts_usable_files [OF s] s show ?thesis
    unfolding tool_def by (simp add: total_def)
qed

subsection \<open>C4: runs that end without output\<close>

lemma scan_completes:
  "(\<And>f. f \<in> set fs \<Longrightarrow> \<exists>obs. observe tool f = Inr obs) \<Longrightarrow> \<exists>st'. scan tool fs st = Inr st'"
proof (induction fs arbitrary: st)
  case Nil
  show ?case by simp
next
  case (Cons f fs)
  from Cons.prems [of f] obtain obs where "observe tool f = Inr obs" by auto
  moreover from Cons.IH [of "tally obs st"] Cons.prems
  obtain st' where "scan tool fs (tally obs st) = Inr st'" by auto
  ultimately show ?case by simp
qed

lemma main_no_usable_file:
  assumes "is_dir w" and "image_files w \<noteq> []"
    and "\<forall>f\<in>set (image_files w). \<not> usable (exiftool w) f"
  shows "main w = (case scan (exiftool w) (image_files w) ([], []) of
                     Inl e \<Rightarrow> Uncaught e
                   | Inr st \<Rightarrow> SysExit ''No focal-length data found (tags missing).'')"
proof (cases "scan (exiftool w) (image_files w) ([], [])")
  case (Inl e)
  with assms(1,2) show ?thesis by (simp add: main_def)
next
  case (Inr st)
  from scan_unusable [OF Inr] assms(3) have "fst st = []" by simp
  with Inr assms(1,2) show ?thesis by (simp add: main_def)
qed

text \<open>
  C4. A root that is not a directory, a folder without a file of a supported extension
  and a folder none of whose files gives a usable 35 mm equivalent all end the run with
  exit status 1 and without any of the three output files. The first two end in
  \<^verbatim>\<open>sys.exit\<close> with their message; so does the third when the tool and the parser
  succeed on every file (otherwise the exception of C1 ends the run, with its traceback).
\<close>

theorem no_data_exits_without_output:
  "(\<not> is_dir w \<longrightarrow> main w = SysExit (''Folder not found: '' @ root w))
   \<and> (is_dir w \<and> image_files w = [] \<longrightarrow> main w = SysExit ''No supported images found.'')
   \<and> (is_dir w \<and> image_files w \<noteq> []
        \<and> (\<forall>f\<in>set (image_files w). \<exists>obs. observe (exiftool w) f = Inr obs \<and> obs_hist_key obs = None)
        \<longrightarrow> main w = SysExit ''No focal-length data found (tags missing).'')
   \<and> (\<not> is_dir w \<or> image_files w = [] \<or> (\<forall>f\<in>set (image_files w). \<not> usable (exiftool w) f)
        \<longrightarrow> (\<exists>msg. main w = SysExit msg \<or> (\<exists>e. main w = Uncaught e))
            \<and> exit_status (main w) = 1 \<and> files_written (main w) = [])"
proof -
  have a: "main w = SysExit (''Folder not found: '' @ root w)" if "\<not> is_dir w"
    using that by (simp add: main_def)
  have b: "main w = SysExit ''No supported images found.''" if "is_dir w" "image_files w = []"
    using that by (simp add: main_def)
  have c: "main w = SysExit ''No focal-length data found (tags missing).''"
    if "is_dir w" "image_files w \<noteq> []"
      and ok: "\<forall>f\<in>set (image_files w). \<exists>obs. observe (exiftool w) f = Inr obs \<and> obs_hist_key obs = None"
  proof -
    from ok have "\<forall>f\<in>set (image_files w). \<not> usable (exiftool w) f"
      by (auto simp: usable_def hist_key_def)
    moreover from ok scan_completes [of "image_files w" "exiftool w" "([], [])"]
    obtain st where "scan (exiftool w) (image_files w) ([], []) = Inr st" by blast
    ultimately show ?thesis
      using main_no_usable_file [of w] that(1,2) by simp
  qed
  have d: "(\<exists>msg. main w = SysExit msg \<or> (\<exists>e. main w = Uncaught e))
            \<and> exit_status (main w) = 1 \<and> files_written (main w) = []"
    if "\<not> is_dir w \<or> image_files w = [] \<or> (\<forall>f\<in>set (image_files w). \<not> usable (exiftool w) f)"
  proof -
    have "(\<exists>msg. main w = SysExit msg) \<or> (\<exists>e. main w = Uncaught e)"
    proof (cases "is_dir w \<and> image_files w \<noteq> []")
      case True
      with that main_no_usable_file [of w] show ?thesis
        by (auto split: sum.splits)
    next
      case False
      with a b show ?thesis by blast
    qed
    then show ?thesis
      by (auto simp: exit_status_def files_written_def)
  qed
  from a b c d show ?thesis by blast
qed

theorem no_data_exits_without_output_witness:
  "main \<lparr> root = ''nowhere'', is_dir = False, rglob = [], exiftool = (\<lambda>p. ToolMissing) \<rparr>
     = SysExit ''Folder not found: nowhere''
   \<and> main \<lparr> root = ''photos'', is_dir = True,
        rglob = [\<lparr> entry_path = ''notes.txt'', entry_suffix = ''.txt'' \<rparr>],
        exiftool = (\<lambda>p. ToolMissing) \<rparr>
     = SysExit ''No supported images found.''
   \<and> main \<lparr> root = ''photos'', is_dir = True,
        rglob = [\<lparr> entry_path = ''scan.JPEG'', entry_suffix = ''.JPEG'' \<rparr>],
        exiftool = (\<lambda>p. ToolExit 0 ''Canon\<newline>EOS 5D'') \<rparr>
     = SysExit ''No focal-length data found (tags missing).''
   \<and> files_written (main \<lparr> root = ''photos'', is_dir = True,
        rglob = [\<lparr> entry_path = ''scan.JPEG'', entry_suffix = ''.JPEG'' \<rparr>],
        exiftool = (\<lambda>p. ToolExit 0 ''Canon\<newline>EOS 5D'') \<rparr>) = []"
proof -
  define w1 where "w1 = \<lparr> root = ''nowhere'', is_dir = False, rglob = [],
     exiftool = (\<lambda>p. ToolMissing) \<rparr>"
  define w2 where "w2 = \<lparr> root = ''photos'', is_dir = True,
        rglob = [\<lparr> entry_path = ''notes.txt'', entry_suffix = ''.txt'' \<rparr>],
        exiftool = (\<lambda>p. ToolMissing) \<rparr>"
  define w3 where "w3 = \<lparr> root = ''photos'', is_dir = True,
        rglob = [\<lparr> entry_path = ''scan.JPEG'', entry_suffix = ''.JPEG'' \<rparr>],
        exiftool = (\<lambda>p. ToolExit 0 ''Canon\<newline>EOS 5D'') \<rparr>"
  have 1: "\<not> is_dir w1" "root w1 = ''nowhere''"
    by (simp_all add: w1_def)
  have 2: "is_dir w2 \<and> image_files w2 = []"
    by (simp add: w2_def image_files_def IMG_EXTS_def text_defs)
  have files: "image_files w3 = [''scan.JPEG'']"
    by (simp add: w3_def image_files_def IMG_EXTS_def text_defs)
  have obs: "observe (exiftool w3) ''scan.JPEG'' = Inr (None, None, ''EOS 5D'')"
    by (simp add: w3_def model_defs text_defs number_defs)
  have 3: "is_dir w3 \<and> image_files w3 \<noteq> []
        \<and> (\<forall>f\<in>set (image_files w3). \<exists>obs. observe (exiftool w3) f = Inr obs \<and> obs_hist_key obs = None)"
    by (simp add: files obs obs_hist_key_def truthy_def) (simp add: w3_def)
  have 4: "\<forall>f\<in>set (image_files w3). \<not> usable (exiftool w3) f"
    by (simp add: files usable_def hist_key_def obs obs_hist_key_def truthy_def)
  have r1: "main w1 = SysExit ''Folder not found: nowhere''"
    using no_data_exits_without_output [of w1] 1 by simp
  have r2: "main w2 = SysExit ''No supported images found.''"
    using no_data_exits_without_output [of w2] 2 by blast
  have r3: "main w3 = SysExit ''No focal-length data found (tags missing).''"
    using no_data_exits_without_output [of w3] 3 by blast
  have r4: "files_written (main w3) = []"
    using no_data_exits_without_output [of w3] 4 by blast
  from r1 r2 r3 r4 show ?thesis
    unfolding w1_def w2_def w3_def by blast
qed

subsection \<open>C5: the order of the sources in the normalizer\<close>

text \<open>
  C5, as amended. \<^verbatim>\<open>ff_equiv\<close> tests each parsed tag with \<^verbatim>\<open>if mm\<close>, which is false for
  zero as for \<^verbatim>\<open>None\<close>. A composite value that parses to a non-zero number is returned,
  whatever the separate tag holds; the separate tag is returned when the composite is
  absent or zero and the separate tag parses to a non-zero number; the crop-factor rule
  applies when both are absent or zero.
\<close>

theorem ff_equiv_priority:
  "(to_float (dict_get m ''FL35Comp'') = Inr (Some c) \<and> c \<noteq> 0
      \<longrightarrow> ff_equiv m native = Inr (Some c))
   \<and> (to_float (dict_get m ''FL35Comp'') = Inr c0 \<and> \<not> truthy c0
       \<and> to_float (dict_get m ''FL35'') = Inr (Some s) \<and> s \<noteq> 0
      \<longrightarrow> ff_equiv m native = Inr (Some s))
   \<and> (to_float (dict_get m ''FL35Comp'') = Inr c0 \<and> \<not> truthy c0
       \<and> to_float (dict_get m ''FL35'') = Inr s0 \<and> \<not> truthy s0
      \<longrightarrow> ff_equiv m native =
           (case native of
              None \<Rightarrow> Inr None
            | Some n \<Rightarrow>
                (case dict_get_or m ''Make'' [] of
                   None \<Rightarrow> Inl AttributeError
                 | Some mk \<Rightarrow>
                     Inr (Some (if str_in ''FUJIFILM'' (upper mk) then n * CROP_APSC else n)))))"
  using ff_equiv_composite [of m c native] ff_equiv_separate [of m c0 s native]
    ff_equiv_fallback [of m c0 s0 native]
  by blast

theorem ff_equiv_priority_witness:
  "ff_equiv (map_of [(''Make'', Some ''Apple''), (''Model'', Some ''iPhone 15''),
       (''FL'', Some ''6.9 mm''), (''FL35'', Some ''26 mm''), (''FL35Comp'', Some ''27.5 mm'')])
     (Some (69 / 10)) = Inr (Some (55 / 2))
   \<and> ff_equiv (map_of [(''Make'', Some ''Apple''), (''Model'', Some ''iPhone 15''),
       (''FL'', Some ''6.9 mm''), (''FL35'', Some ''26 mm''), (''FL35Comp'', None)])
     (Some (69 / 10)) = Inr (Some 26)
   \<and> ff_equiv (map_of [(''Make'', Some ''Canon''), (''Model'', Some ''EOS 5D''),
       (''FL'', Some ''50.0 mm''), (''FL35'', None), (''FL35Comp'', None)])
     (Some 50) = Inr (Some 50)"
proof -
  define m1 :: meta where "m1 = map_of [(''Make'', Some ''Apple''), (''Model'', Some ''iPhone 15''),
       (''FL'', Some ''6.9 mm''), (''FL35'', Some ''26 mm''), (''FL35Comp'', Some ''27.5 mm'')]"
  define m2 :: meta where "m2 = map_of [(''Make'', Some ''Apple''), (''Model'', Some ''iPhone 15''),
       (''FL'', Some ''6.9 mm''), (''FL35'', Some ''26 mm''), (''FL35Comp'', None)]"
  define m3 :: meta where "m3 = map_of [(''Make'', Some ''Canon''), (''Model'', Some ''EOS 5D''),
       (''FL'', Some ''50.0 mm''), (''FL35'', None), (''FL35Comp'', None)]"
  have p1: "to_float (dict_get m1 ''FL35Comp'') = Inr (Some (55 / 2)) \<and> (55 / 2 :: rat) \<noteq> 0"
    by (simp add: m1_def dict_get_def number_defs or_empty_def)
  have p2: "to_float (dict_get m2 ''FL35Comp'') = Inr None \<and> \<not> truthy None
       \<and> to_float (dict_get m2 ''FL35'') = Inr (Some 26) \<and> (26 :: rat) \<noteq> 0"
    by (simp add: m2_def dict_get_def number_defs or_empty_def truthy_def)
  have p3: "to_float (dict_get m3 ''FL35Comp'') = Inr None \<and> \<not> truthy None
       \<and> to_float (dict_get m3 ''FL35'') = Inr None \<and> \<not> truthy None"
    by (simp add: m3_def dict_get_def number_defs or_empty_def truthy_def)
  have make: "dict_get_or m3 ''Make'' [] = Some ''Canon''"
    by (simp add: m3_def dict_get_or_def)
  have r1: "ff_equiv m1 (Some (69 / 10)) = Inr (Some (55 / 2))"
    using ff_equiv_priority [of m1 "55 / 2" "Some (69 / 10)"] p1 by blast
  have r2: "ff_equiv m2 (Some (69 / 10)) = Inr (Some 26)"
    using ff_equiv_priority [of m2 _ "Some (69 / 10)" None 26] p2 by blast
  have "ff_equiv m3 (Some 50) =
           (case Some (50 :: rat) of
              None \<Rightarrow> Inr None
            | Some n \<Rightarrow>
                (case dict_get_or m3 ''Make'' [] of
                   None \<Rightarrow> Inl AttributeError
                 | Some mk \<Rightarrow>
                     Inr (Some (if str_in ''FUJIFILM'' (upper mk) then n * CROP_APSC else n))))"
    using ff_equiv_priority [of m3 _ "Some 50" None _ None] p3 by blast
  then have r3: "ff_equiv m3 (Some 50) = Inr (Some 50)"
    by (simp add: make text_defs)
  from r1 r2 r3 show ?thesis
    unfolding m1_def m2_def m3_def by blast
qed

text \<open>
  C5 as stated fails when the composite value parses to zero: both tags parse to a
  number, and the separate tag's 35 is returned, not the composite's 0.
\<close>

theorem zero_composite_is_skipped:
  "to_float (dict_get (map_of [(''Make'', Some ''Apple''), (''Model'', Some ''iPhone 15''),
       (''FL'', Some ''6.9 mm''), (''FL35'', Some ''35 mm''), (''FL35Comp'', Some ''0.0 mm'')])
     ''FL35Comp'') = Inr (Some 0)
   \<and> to_float (dict_get (map_of [(''Make'', Some ''Apple''), (''Model'', Some ''iPhone 15''),
       (''FL'', Some ''6.9 mm''), (''FL35'', Some ''35 mm''), (''FL35Comp'', Some ''0.0 mm'')])
     ''FL35'') = Inr (Some 35)
   \<and> ff_equiv (map_of [(''Make'', Some ''Apple''), (''Model'', Some ''iPhone 15''),
       (''FL'', Some ''6.9 mm''), (''FL35'', Some ''35 mm''), (''FL35Comp'', Some ''0.0 mm'')])
     (Some (69 / 10)) = Inr (Some 35)"
  by (simp add: model_defs number_defs or_empty_def)

subsection \<open>C6: the camera label\<close>

text \<open>
  C6. \<^verbatim>\<open>camera\<close> applies its rules in order, matching the markers in the upper-cased
  text: a manufacturer containing \<^verbatim>\<open>APPLE\<close> gives \<^verbatim>\<open>iPhone\<close>; one containing
  \<^verbatim>\<open>FUJIFILM\<close> gives \<^verbatim>\<open>XT5\<close> when the model contains \<^verbatim>\<open>X-T5\<close> and the model text
  otherwise; any other manufacturer gives the model text if it is not empty, else the
  (upper-cased) manufacturer text, else \<^verbatim>\<open>Unknown\<close>. The four examples of the
  specification are the first four conjuncts.
\<close>

theorem camera_rules:
  "(dict_get m ''Make'' = Some ''APPLE INC.'' \<longrightarrow> camera m = ''iPhone'')
   \<and> (dict_get m ''Make'' = Some ''FUJIFILM'' \<and> dict_get m ''Model'' = Some ''X-T5 ''
        \<longrightarrow> camera m = ''XT5'')
   \<and> (dict_get m ''Make'' = Some ''FUJIFILM'' \<and> dict_get m ''Model'' = Some ''X100V''
        \<longrightarrow> camera m = ''X100V'')
   \<and> (or_empty (dict_get m ''Make'') = [] \<and> or_empty (dict_get m ''Model'') = []
        \<longrightarrow> camera m = ''Unknown'')
   \<and> (dict_get m ''Make'' = Some ''Apple'' \<longrightarrow> camera m = ''iPhone'')
   \<and> (dict_get m ''Make'' = Some ''Fujifilm'' \<and> dict_get m ''Model'' = Some ''x-t5''
        \<longrightarrow> camera m = ''XT5'')
   \<and> (str_in ''APPLE'' (upper (or_empty (dict_get m ''Make''))) \<longrightarrow> camera m = ''iPhone'')
   \<and> (\<not> str_in ''APPLE'' (upper (or_empty (dict_get m ''Make'')))
        \<and> str_in ''FUJIFILM'' (upper (or_empty (dict_get m ''Make'')))
        \<longrightarrow> camera m = (if str_in ''X-T5'' (upper (or_empty (dict_get m ''Model'')))
                        then ''XT5'' else or_empty (dict_get m ''Model'')))
   \<and> (\<not> str_in ''APPLE'' (upper (or_empty (dict_get m ''Make'')))
        \<and> \<not> str_in ''FUJIFILM'' (upper (or_empty (dict_get m ''Make'')))
        \<and> or_empty (dict_get m ''Model'') \<noteq> []
        \<longrightarrow> camera m = or_empty (dict_get m ''Model''))
   \<and> (\<not> str_in ''APPLE'' (upper (or_empty (dict_get m ''Make'')))
        \<and> \<not> str_in ''FUJIFILM'' (upper (or_empty (dict_get m ''Make'')))
        \<and> or_empty (dict_get m ''Model'') = []
        \<and> or_empty (dict_get m ''Make'') \<noteq> []
        \<longrightarrow> camera m = upper (or_empty (dict_get m ''Make'')))"
proof -
  have ex: "upper ''APPLE INC.'' = ''APPLE INC.''" "upper ''FUJIFILM'' = ''FUJIFILM''"
    "upper ''X-T5 '' = ''X-T5 ''" "upper ''X100V'' = ''X100V''"
    "upper ''Apple'' = ''APPLE''" "upper ''Fujifilm'' = ''FUJIFILM''"
    "upper ''x-t5'' = ''X-T5''" "upper [] = []"
    by (simp_all add: upper_def upper_char_def)
  have nonempty: "upper s = [] \<longleftrightarrow> s = []" for s
    by (simp add: upper_def)
  show ?thesis
    unfolding camera_def Let_def
    by (intro conjI impI) (simp_all add: ex or_empty_def nonempty)
qed


theorem camera_rules_witness:
  "camera (map_of [(''Make'', Some ''APPLE INC.''), (''Model'', Some ''iPhone 15'')]) = ''iPhone''
   \<and> camera (map_of [(''Make'', Some ''FUJIFILM''), (''Model'', Some ''X-T5 '')]) = ''XT5''
   \<and> camera (map_of [(''Make'', Some ''FUJIFILM''), (''Model'', Some ''X100V'')]) = ''X100V''
   \<and> camera (map_of [(''Make'', Some []), (''Model'', Some [])]) = ''Unknown''
   \<and> camera (map_of [(''Make'', None), (''Model'', None)]) = ''Unknown''
   \<and> camera (map_of [(''Make'', Some ''Sony''), (''Model'', Some ''ILCE-7M3'')]) = ''ILCE-7M3''
   \<and> camera (map_of [(''Make'', Some ''Sony''), (''Model'', None)]) = ''SONY''"
proof -
  have "camera (map_of [(''Make'', Some ''APPLE INC.''), (''Model'', Some ''iPhone 15'')]) = ''iPhone''"
    using camera_rules [of "map_of [(''Make'', Some ''APPLE INC.''), (''Model'', Some ''iPhone 15'')]"]
    by (simp add: dict_get_def)
  moreover
  have "camera (map_of [(''Make'', Some ''FUJIFILM''), (''Model'', Some ''X-T5 '')]) = ''XT5''"
    using camera_rules [of "map_of [(''Make'', Some ''FUJIFILM''), (''Model'', Some ''X-T5 '')]"]
    by (simp add: dict_get_def)
  moreover
  have "camera (map_of [(''Make'', Some ''FUJIFILM''), (''Model'', Some ''X100V'')]) = ''X100V''"
    using camera_rules [of "map_of [(''Make'', Some ''FUJIFILM''), (''Model'', Some ''X100V'')]"]
    by (simp add: dict_get_def)
  moreover
  have "camera (map_of [(''Make'', Some []), (''Model'', Some [])]) = ''Unknown''"
    using camera_rules [of "map_of [(''Make'', Some []), (''Model'', Some [])]"]
    by (simp add: dict_get_def or_empty_def)
  moreover
  have "camera (map_of [(''Make'', None), (''Model'', None)]) = ''Unknown''"
    using camera_rules [of "map_of [(''Make'', None), (''Model'', None)]"]
    by (simp add: dict_get_def or_empty_def)
  moreover
  have "camera (map_of [(''Make'', Some ''Sony''), (''Model'', Some ''ILCE-7M3'')]) = ''ILCE-7M3''"
    using camera_rules [of "map_of [(''Make'', Some ''Sony''), (''Model'', Some ''ILCE-7M3'')]"]
    by (simp add: dict_get_def text_defs)
  moreover
  have "camera (map_of [(''Make'', Some ''Sony''), (''Model'', None)]) = ''SONY''"
    using camera_rules [of "map_of [(''Make'', Some ''Sony''), (''Model'', None)]"]
    by (simp add: dict_get_def text_defs)
  ultimately show ?thesis by blast
qed

subsection \<open>C7: parsing a focal length\<close>

text \<open>
  C7 holds for \<^verbatim>\<open>35 mm\<close>, the empty string and a missing field, but not for every input:
  the pattern \<^verbatim>\<open>[\d.]+\<close> also matches a lone dot and a number with two dots, which
  \<^verbatim>\<open>float\<close> rejects with \<^verbatim>\<open>ValueError\<close>, where the code's own
  \<^verbatim>\<open>if m else None\<close> means a field without a number to be absent.
\<close>

theorem to_float_raises_on_dots:
  "to_float (Some ''.'') = Inl ValueError
   \<and> to_float (Some ''1.2.3 mm'') = Inl ValueError
   \<and> to_float (Some ''35 mm'') = Inr (Some 35)
   \<and> to_float (Some []) = Inr None
   \<and> to_float None = Inr None"
  by (simp add: number_defs or_empty_def)


subsection \<open>C8: fewer lines than fields\<close>

text \<open>
  C8. When the tool succeeds with fewer than five lines of output, \<^verbatim>\<open>exif_vals\<close>
  returns a dictionary, without an exception: the first keys are bound to the lines, in
  order, and every remaining key to \<^verbatim>\<open>None\<close>.
\<close>

theorem exif_vals_short_output:
  assumes "tool path = ToolExit 0 out"
    and "ls = splitlines (strip out)"
    and "length ls < 5"
  shows "\<exists>m. exif_vals tool path = Inr m
    \<and> (\<forall>i<5. dict_get m (exif_keys ! i) = (if i < length ls then Some (ls ! i) else None))"
proof -
  have "exif_vals tool path
      = Inr (map_of (zip exif_keys (map Some ls @ replicate 5 None)))"
    using assms(1,2) by (simp add: exif_vals_def)
  with short_output_fields [OF assms(3)] show ?thesis
    by simp
qed

theorem exif_vals_short_output_witness:
  "\<exists>m. exif_vals (\<lambda>p. ToolExit 0 ''Apple\<newline>iPhone 15\<newline>'') ''a.jpg'' = Inr m
     \<and> dict_get m ''Make'' = Some ''Apple''
     \<and> dict_get m ''Model'' = Some ''iPhone 15''
     \<and> dict_get m ''FL'' = None
     \<and> dict_get m ''FL35'' = None
     \<and> dict_get m ''FL35Comp'' = None"
proof -
  have ls: "[''Apple'', ''iPhone 15''] = splitlines (strip ''Apple\<newline>iPhone 15\<newline>'')"
    by (simp add: text_defs)
  have short: "length [''Apple'', ''iPhone 15''] < 5"
    by simp
  from exif_vals_short_output
    [of "\<lambda>p. ToolExit 0 ''Apple\<newline>iPhone 15\<newline>''" "''a.jpg''"
        "''Apple\<newline>iPhone 15\<newline>''" "[''Apple'', ''iPhone 15'']"] ls short
  obtain m where m: "exif_vals (\<lambda>p. ToolExit 0 ''Apple\<newline>iPhone 15\<newline>'') ''a.jpg'' = Inr m"
    and fields: "\<forall>i<5. dict_get m (exif_keys ! i)
        = (if i < length [''Apple'', ''iPhone 15''] then Some ([''Apple'', ''iPhone 15''] ! i) else None)"
    by blast
  from fields have "dict_get m (exif_keys ! 0) = Some ''Apple''"
    "dict_get m (exif_keys ! 1) = Some ''iPhone 15''"
    "dict_get m (exif_keys ! 2) = None"
    "dict_get m (exif_keys ! 3) = None"
    "dict_get m (exif_keys ! 4) = None"
    by simp_all
  then show ?thesis using m
    by (simp add: exif_keys_def)
qed

subsection \<open>C9: the rows of the two tables\<close>

lemma fst_mono_lex: "x \<le> y \<Longrightarrow> fst x \<le> fst (y :: 'a::linorder \<times> 'b::linorder)"
  by (auto simp: less_eq_prod_def)

lemma sorted_keys_of_sort:
  fixes c :: "('k::linorder \<times> nat) list"
  assumes "well_formed c"
  shows "sorted_wrt (<) (map fst (sort c))"
proof -
  have "sorted (sort c)" by simp
  then have "sorted_wrt (\<lambda>x y. fst x \<le> fst y) (sort c)"
    by (rule sorted_wrt_mono_rel [rotated]) (simp add: fst_mono_lex)
  then have "sorted (map fst (sort c))"
    by (simp add: sorted_map)
  moreover have "distinct (map fst (sort c))"
    using assms by (simp add: well_formed_def distinct_map)
  ultimately show ?thesis
    by (simp add: strict_sorted_iff)
qed

lemma well_formed_entry_iff:
  assumes "well_formed c"
  shows "(k, n) \<in> set c \<longleftrightarrow> 0 < n \<and> n = count_of c k"
proof
  assume "(k, n) \<in> set c"
  with assms have "map_of c k = Some n" "0 < n"
    by (auto simp: well_formed_def)
  then show "0 < n \<and> n = count_of c k"
    by (simp add: count_of_def)
next
  assume "0 < n \<and> n = count_of c k"
  then have "map_of c k = Some n"
    by (auto simp: count_of_def split: option.splits)
  then show "(k, n) \<in> set c"
    by (rule map_of_SomeD)
qed

lemma filter_length_disj:
  "(\<And>x. x \<in> set xs \<Longrightarrow> \<not> (P x \<and> Q x)) \<Longrightarrow>
   length (filter (\<lambda>x. P x \<or> Q x) xs) = length (filter P xs) + length (filter Q xs)"
  by (induction xs) auto

lemma filter_length_all:
  assumes "length (filter P xs) = length xs" and "x \<in> set xs"
  shows "P x"
proof (rule ccontr)
  assume "\<not> P x"
  with assms(2) have "length (filter P xs) < length xs"
    by (rule length_filter_less)
  with assms(1) show False by simp
qed

lemma two_and_one:
  fixes key :: "'f \<Rightarrow> 'k option"
  assumes "length fs = 3"
    and "length (filter (\<lambda>f. key f = Some k1) fs) = 2"
    and "length (filter (\<lambda>f. key f = Some k2) fs) = 1"
  shows "k1 \<noteq> k2"
    and "0 < length (filter (\<lambda>f. key f = Some k) fs) \<Longrightarrow> k = k1 \<or> k = k2"
proof -
  show ne: "k1 \<noteq> k2"
    using assms(2,3) by auto
  then have "length (filter (\<lambda>f. key f = Some k1 \<or> key f = Some k2) fs) = length fs"
    using assms by (subst filter_length_disj) auto
  then have all: "key f = Some k1 \<or> key f = Some k2" if "f \<in> set fs" for f
    using that by (rule filter_length_all)
  assume "0 < length (filter (\<lambda>f. key f = Some k) fs)"
  then obtain f where "f \<in> set fs" "key f = Some k"
    by (auto simp: filter_empty_conv)
  with all [of f] show "k = k1 \<or> k = k2" by auto
qed

lemma main_done:
  assumes "main w = Done r"
  obtains st where "scan (exiftool w) (image_files w) ([], []) = Inr st"
    and "r = write_report st"
  using assms by (auto simp: main_def split: if_splits sum.splits)


text \<open>
  C9. A run that reaches its end writes the histogram table with the header
  \<^verbatim>\<open>focal_mm_35eq,count\<close> and one row per histogram key, in strictly ascending order of
  the key, each with the number of files counted under it; and the per-camera table
  with the header \<^verbatim>\<open>camera,native_mm,focal_mm_35eq,count\<close> and one row per
  (camera, native, equivalent) triple, in strictly ascending order of the triple. With
  three files, two counted under one key and one under another, the histogram table has
  exactly the two rows with counts 2 and 1, the smaller key first.
\<close>

theorem report_rows_sorted:
  assumes "main w = Done r"
  shows "\<exists>hrows crows.
      histogram_csv r = [Str ''focal_mm_35eq'', Str ''count''] # map hist_row hrows
    \<and> sorted_wrt (<) (map fst hrows)
    \<and> (\<forall>k n. (k, n) \<in> set hrows \<longleftrightarrow>
          0 < n \<and> n = length (filter (\<lambda>f. hist_key (exiftool w) f = Some k) (image_files w)))
    \<and> camera_csv r
        = [Str ''camera'', Str ''native_mm'', Str ''focal_mm_35eq'', Str ''count'']
            # map camfx_row crows
    \<and> sorted_wrt (<) (map fst crows)
    \<and> (\<forall>k n. (k, n) \<in> set crows \<longleftrightarrow>
          0 < n \<and> n = length (filter (\<lambda>f. camfx_key (exiftool w) f = Some k) (image_files w)))
    \<and> (length (image_files w) = 3
        \<and> length (filter (\<lambda>f. hist_key (exiftool w) f = Some k1) (image_files w)) = 2
        \<and> length (filter (\<lambda>f. hist_key (exiftool w) f = Some k2) (image_files w)) = 1
        \<longrightarrow> hrows = (if k1 < k2 then [(k1, 2), (k2, 1)] else [(k2, 1), (k1, 2)]))"
proof -
  from assms obtain st where st: "scan (exiftool w) (image_files w) ([], []) = Inr st"
    and r: "r = write_report st"
    by (rule main_done)
  define hrows where "hrows = sort (fst st)"
  define crows where "crows = sort (snd st)"
  have empty: "well_formed ([] :: int counter)" "well_formed ([] :: (string \<times> int \<times> int) counter)"
    by (simp_all add: well_formed_def)
  have wf: "well_formed (fst st)" "well_formed (snd st)"
    using scan_well_formed [OF st] empty by simp_all
  have hcount: "count_of (fst st) k
      = length (filter (\<lambda>f. hist_key (exiftool w) f = Some k) (image_files w))" for k
    using scan_hist_count [OF st, of k] by (simp add: count_of_def)
  have ccount: "count_of (snd st) k
      = length (filter (\<lambda>f. camfx_key (exiftool w) f = Some k) (image_files w))" for k
    using scan_camfx_count [OF st, of k] by (simp add: count_of_def)
  have h1: "histogram_csv r = [Str ''focal_mm_35eq'', Str ''count''] # map hist_row hrows"
    by (simp add: r write_report_def hrows_def)
  have h2: "sorted_wrt (<) (map fst hrows)"
    unfolding hrows_def using wf(1) by (rule sorted_keys_of_sort)
  have h3: "(k, n) \<in> set hrows \<longleftrightarrow>
      0 < n \<and> n = length (filter (\<lambda>f. hist_key (exiftool w) f = Some k) (image_files w))" for k n
    using well_formed_entry_iff [OF wf(1), of k n] by (simp add: hrows_def hcount)
  have c1: "camera_csv r
      = [Str ''camera'', Str ''native_mm'', Str ''focal_mm_35eq'', Str ''count'']
          # map camfx_row crows"
    by (simp add: r write_report_def crows_def)
  have c2: "sorted_wrt (<) (map fst crows)"
    unfolding crows_def using wf(2) by (rule sorted_keys_of_sort)
  have c3: "(k, n) \<in> set crows \<longleftrightarrow>
      0 < n \<and> n = length (filter (\<lambda>f. camfx_key (exiftool w) f = Some k) (image_files w))" for k n
    using well_formed_entry_iff [OF wf(2), of k n] by (simp add: crows_def ccount)
  have three: "hrows = (if k1 < k2 then [(k1, 2), (k2, 1)] else [(k2, 1), (k1, 2)])"
    if len: "length (image_files w) = 3"
      and two: "length (filter (\<lambda>f. hist_key (exiftool w) f = Some k1) (image_files w)) = 2"
      and one: "length (filter (\<lambda>f. hist_key (exiftool w) f = Some k2) (image_files w)) = 1"
  proof -
    note facts = two_and_one [of "image_files w" "hist_key (exiftool w)", OF len two one]
    have ne: "k1 \<noteq> k2" by (rule facts(1))
    have "set hrows = {(k1, 2), (k2, 1)}"
    proof (intro set_eqI iffI)
      fix x assume x: "x \<in> set hrows"
      obtain k n where kn: "x = (k, n)" by (cases x)
      from x kn have "(k, n) \<in> set hrows" by simp
      then have n: "0 < n"
        "n = length (filter (\<lambda>f. hist_key (exiftool w) f = Some k) (image_files w))"
        using h3 [of k n] by blast+
      with facts(2) [of k] have "k = k1 \<or> k = k2" by simp
      with n two one kn show "x \<in> {(k1, 2), (k2, 1)}" by auto
    next
      fix x assume "x \<in> {(k1, 2 :: nat), (k2, 1)}"
      with h3 [of k1 2] h3 [of k2 1] two one show "x \<in> set hrows" by auto
    qed
    moreover have "sorted hrows" "distinct hrows"
      using wf(1) by (simp_all add: hrows_def well_formed_def distinct_map)
    moreover have "sorted (if k1 < k2 then [(k1, 2 :: nat), (k2, 1)] else [(k2, 1), (k1, 2)])"
      using ne by (auto simp: less_eq_prod_def)
    moreover have "distinct (if k1 < k2 then [(k1, 2 :: nat), (k2, 1 :: nat)] else [(k2, 1), (k1, 2)])"
      by simp
    moreover have "set (if k1 < k2 then [(k1, 2 :: nat), (k2, 1 :: nat)] else [(k2, 1), (k1, 2)])
        = {(k1, 2), (k2, 1)}"
      by auto
    ultimately show ?thesis
      by (intro sorted_distinct_set_unique) simp_all
  qed
  from h1 h2 h3 c1 c2 c3 three show ?thesis by blast
qed


theorem report_rows_sorted_witness:
  "main \<lparr> root = ''photos'', is_dir = True,
       rglob = [\<lparr> entry_path = ''a.jpg'', entry_suffix = ''.jpg'' \<rparr>,
                \<lparr> entry_path = ''b.jpg'', entry_suffix = ''.jpg'' \<rparr>,
                \<lparr> entry_path = ''c.jpg'', entry_suffix = ''.jpg'' \<rparr>],
       exiftool = (\<lambda>p. if p = ''a.jpg'' then ToolExit 0 ''FUJIFILM\<newline>X-T5\<newline>23.0 mm\<newline>35 mm''
                        else ToolExit 0 ''Apple\<newline>iPhone 15\<newline>6.9 mm\<newline>26 mm'') \<rparr>
     = Done \<lparr> histogram_csv =
                [[Str ''focal_mm_35eq'', Str ''count''], [Num 26, Num 2], [Num 35, Num 1]],
              camera_csv =
                [[Str ''camera'', Str ''native_mm'', Str ''focal_mm_35eq'', Str ''count''],
                 [Str ''XT5'', Num 23, Num 35, Num 1],
                 [Str ''iPhone'', Num 7, Num 26, Num 2]],
              chart_bars = [(26, 2), (35, 1)] \<rparr>
   \<and> (\<exists>crows.
        [[Str ''focal_mm_35eq'', Str ''count''], [Num 26, Num 2], [Num 35, Num 1]]
          = [Str ''focal_mm_35eq'', Str ''count''] # map hist_row [(26, 2), (35, 1)]
        \<and> [[Str ''camera'', Str ''native_mm'', Str ''focal_mm_35eq'', Str ''count''],
            [Str ''XT5'', Num 23, Num 35, Num 1],
            [Str ''iPhone'', Num 7, Num 26, Num 2]]
          = [Str ''camera'', Str ''native_mm'', Str ''focal_mm_35eq'', Str ''count'']
              # map camfx_row crows
        \<and> sorted_wrt (<) (map fst crows))"
proof -
  define tool where "tool = (\<lambda>p. if p = ''a.jpg''
      then ToolExit 0 ''FUJIFILM\<newline>X-T5\<newline>23.0 mm\<newline>35 mm''
      else ToolExit 0 ''Apple\<newline>iPhone 15\<newline>6.9 mm\<newline>26 mm'')"
  define w where "w = \<lparr> root = ''photos'', is_dir = True,
       rglob = [\<lparr> entry_path = ''a.jpg'', entry_suffix = ''.jpg'' \<rparr>,
                \<lparr> entry_path = ''b.jpg'', entry_suffix = ''.jpg'' \<rparr>,
                \<lparr> entry_path = ''c.jpg'', entry_suffix = ''.jpg'' \<rparr>],
       exiftool = tool \<rparr>"
  define r where "r = \<lparr> histogram_csv =
                [[Str ''focal_mm_35eq'', Str ''count''], [Num 26, Num 2], [Num 35, Num 1]],
              camera_csv =
                [[Str ''camera'', Str ''native_mm'', Str ''focal_mm_35eq'', Str ''count''],
                 [Str ''XT5'', Num 23, Num 35, Num 1],
                 [Str ''iPhone'', Num 7, Num 26, Num 2]],
              chart_bars = [(26, 2), (35, 1)] \<rparr>"
  have a: "observe tool ''a.jpg'' = Inr (Some 23, Some 35, ''XT5'')"
    by (simp add: tool_def model_defs text_defs number_defs)
  have b: "observe tool ''b.jpg'' = Inr (Some (69 / 10), Some 26, ''iPhone'')"
    by (simp add: tool_def model_defs text_defs number_defs)
  have c: "observe tool ''c.jpg'' = Inr (Some (69 / 10), Some 26, ''iPhone'')"
    by (simp add: tool_def model_defs text_defs number_defs)
  have rnd: "py_round (69 / 10) = 7" "py_round 26 = 26" "py_round 23 = 23" "py_round 35 = 35"
    by (simp_all add: py_round_def Let_def floor_rat_numeral_div)
  have files: "image_files w = [''a.jpg'', ''b.jpg'', ''c.jpg'']"
    by (simp add: w_def image_files_def IMG_EXTS_def text_defs)
  have tool: "exiftool w = tool" "is_dir w"
    by (simp_all add: w_def)
  have sc: "scan tool [''a.jpg'', ''b.jpg'', ''c.jpg''] ([], [])
      = Inr ([(35, 1), (26, 2)], [((''XT5'', 23, 35), 1), ((''iPhone'', 7, 26), 2)])"
    by (simp add: a b c rnd tally.simps)
  have run: "main w = Done r"
    by (simp add: main_def files tool sc r_def write_report_def hist_row_def camfx_row_def
        del: scan.simps)
  have keys: "hist_key tool ''a.jpg'' = Some 35" "hist_key tool ''b.jpg'' = Some 26"
    "hist_key tool ''c.jpg'' = Some 26"
    by (simp_all add: hist_key_def a b c obs_hist_key_def truthy_def rnd)
  have counts: "length (image_files w) = 3
      \<and> length (filter (\<lambda>f. hist_key (exiftool w) f = Some 26) (image_files w)) = 2
      \<and> length (filter (\<lambda>f. hist_key (exiftool w) f = Some 35) (image_files w)) = 1"
    by (simp add: files tool keys)
  from report_rows_sorted [OF run, of 26 35] counts
  obtain hrows crows where
    "histogram_csv r = [Str ''focal_mm_35eq'', Str ''count''] # map hist_row hrows"
    "hrows = [(26, 2), (35, 1)]"
    "camera_csv r
        = [Str ''camera'', Str ''native_mm'', Str ''focal_mm_35eq'', Str ''count'']
            # map camfx_row crows"
    "sorted_wrt (<) (map fst crows)"
    by auto
  then have ex: "\<exists>crows. histogram_csv r
          = [Str ''focal_mm_35eq'', Str ''count''] # map hist_row [(26, 2), (35, 1)]
        \<and> camera_csv r
          = [Str ''camera'', Str ''native_mm'', Str ''focal_mm_35eq'', Str ''count'']
              # map camfx_row crows
        \<and> sorted_wrt (<) (map fst crows)"
    by blast
  have fields: "histogram_csv r
        = [[Str ''focal_mm_35eq'', Str ''count''], [Num 26, Num 2], [Num 35, Num 1]]"
    "camera_csv r
        = [[Str ''camera'', Str ''native_mm'', Str ''focal_mm_35eq'', Str ''count''],
           [Str ''XT5'', Num 23, Num 35, Num 1],
           [Str ''iPhone'', Num 7, Num 26, Num 2]]"
    by (simp_all add: r_def)
  from ex have "\<exists>crows.
        [[Str ''focal_mm_35eq'', Str ''count''], [Num 26, Num 2], [Num 35, Num 1]]
          = [Str ''focal_mm_35eq'', Str ''count''] # map hist_row [(26, 2), (35, 1)]
        \<and> [[Str ''camera'', Str ''native_mm'', Str ''focal_mm_35eq'', Str ''count''],
            [Str ''XT5'', Num 23, Num 35, Num 1],
            [Str ''iPhone'', Num 7, Num 26, Num 2]]
          = [Str ''camera'', Str ''native_mm'', Str ''focal_mm_35eq'', Str ''count'']
              # map camfx_row crows
        \<and> sorted_wrt (<) (map fst crows)"
    unfolding fields .
  with run show ?thesis
    unfolding w_def tool_def r_def by blast
qed

subsection \<open>C10: files counted in one table only\<close>

text \<open>
  C10. A scanned file with a usable 35 mm equivalent whose native focal length is absent
  or parses to 0 adds one to the histogram and nothing to the per-camera counter, and
  after a scan that holds such a file the counts of the per-camera table add up to
  strictly less than those of the histogram.
\<close>

theorem camera_table_can_undercount:
  assumes "scan tool fs ([], []) = Inr (hist, camfx)"
    and "f \<in> set fs"
    and "observe tool f = Inr (native, Some ff, cam)"
    and "ff \<noteq> 0"
    and "\<not> truthy native"
  shows "tally (native, Some ff, cam) (h, c) = (incr (py_round ff) h, c)
    \<and> total camfx < total hist"
proof -
  have step: "tally (native, Some ff, cam) (h, c) = (incr (py_round ff) h, c)"
    using assms(4,5) by (auto simp: tally.simps truthy_def split: option.splits)
  have "usable tool f" "camfx_key tool f = None"
    using assms(3,4,5)
    by (simp_all add: usable_def hist_key_def camfx_key_def obs_hist_key_def
        obs_camfx_key_def truthy_def)
  then have "length (filter (\<lambda>f. camfx_key tool f \<noteq> None) fs) < length (filter (usable tool) fs)"
    using assms(2) camfx_key_implies_hist_key [of tool]
    by (intro filter_length_strict [where y = f]) auto
  moreover have "total hist = length (filter (usable tool) fs)"
    using scan_hist_total [OF assms(1)] by (simp add: total_def)
  moreover have "total camfx = length (filter (\<lambda>f. camfx_key tool f \<noteq> None) fs)"
    using scan_camfx_total [OF assms(1)] by (simp add: total_def)
  ultimately show ?thesis using step by simp
qed


theorem camera_table_can_undercount_witness:
  "scan (\<lambda>p. ToolExit 0 ''Apple\<newline>iPhone 15\<newline>0.0 mm\<newline>26 mm'') [''a.jpg''] ([], [])
     = Inr ([(26, 1)], [])
   \<and> observe (\<lambda>p. ToolExit 0 ''Apple\<newline>iPhone 15\<newline>0.0 mm\<newline>26 mm'') ''a.jpg''
     = Inr (Some 0, Some 26, ''iPhone'')
   \<and> total ([] :: (string \<times> int \<times> int) counter) < total [(26 :: int, 1 :: nat)]"
proof -
  define tool where "tool = (\<lambda>p :: string. ToolExit 0 ''Apple\<newline>iPhone 15\<newline>0.0 mm\<newline>26 mm'')"
  have obs: "observe tool ''a.jpg'' = Inr (Some 0, Some 26, ''iPhone'')"
    by (simp add: tool_def model_defs text_defs number_defs)
  have rnd: "py_round 26 = 26"
    by (simp add: py_round_def Let_def)
  have sc: "scan tool [''a.jpg''] ([], []) = Inr ([(26, 1)], [])"
    by (simp add: obs rnd tally.simps)
  have "total ([] :: (string \<times> int \<times> int) counter) < total [(26 :: int, 1 :: nat)]"
    using camera_table_can_undercount [OF sc _ obs] by (simp add: truthy_def)
  with sc obs show ?thesis
    unfolding tool_def by simp
qed

end
